theory Spec2Isabelle
  imports Main "HOL-Library.AList"
begin

section \<open>Values, documents and results\<close>

text \<open>
  The values the orchestrator stores in a Firestore document: Python's \<open>None\<close>, an
  integer, a string, the ISO string of a clock reading (\<open>datetime.utcnow().isoformat()\<close>,
  kept as the reading itself) and the sentinel \<open>firestore.SERVER_TIMESTAMP\<close>.
\<close>

datatype val = VNone | VInt int | VStr string | VTime nat | SERVER_TIMESTAMP

text \<open>A Python dict literal is an association list; a stored document is a map.\<close>

type_synonym dict = "(string \<times> val) list"
type_synonym document = "string \<rightharpoonup> val"

text \<open>
  Exceptions: \<open>Exc m\<close> is an exception whose \<open>str()\<close> is \<open>m\<close> (a failure of the store
  or of a step); \<open>TypeError\<close> is what \<open>index <= last_success_step\<close> raises when the stored
  value is not a number; \<open>IndexError\<close> is what \<open>self.steps[index]\<close> raises out of range.
\<close>

datatype exc = Exc string | TypeError | IndexError

fun str :: "exc \<Rightarrow> string" where
  "str (Exc m) = m"
| "str TypeError = ''TypeError''"
| "str IndexError = ''IndexError''"

datatype status = SUCCESS | FAILED | SKIPPED

text \<open>
  The dict a step contributes to \<open>steps_executed\<close>; a key the source leaves out is
  \<open>None\<close> here.
\<close>

record step_result =
  sr_step :: string
  sr_status :: status
  sr_index :: nat
  sr_attempts :: "nat option"
  sr_result :: "val option"
  sr_error :: "string option"

text \<open>The \<open>execution_result\<close> dict of \<open>execute\<close>.\<close>

record execution_result =
  er_status :: status
  steps_executed :: "step_result list"
  errors :: "string list"
  failed_step :: "string option"
  failed_step_index :: "nat option"
  created_at :: "val option"

text \<open>What \<open>execute\<close> returns: the early \<open>ALREADY_IN_PROGRESS\<close> dict with its message, or
  the execution result.\<close>

datatype exec_return = ALREADY_IN_PROGRESS string | Execution execution_result

section \<open>The world: store, steps' environment, clock, faults\<close>

text \<open>
  The calls the properties speak of, in the order they happen: \<open>step.run()\<close> and
  \<open>step.compensate()\<close> by step index, a merge-write that the store accepted (with the
  fields written) and an overwrite of the whole document that the store accepted.
\<close>

datatype event = EvRun nat | EvCompensate nat | EvWrite dict | EvOverwrite dict

text \<open>
  \<open>doc\<close> is the document \<open>workflow_runs/<workflow_name>\<close> (\<open>None\<close>: it does not exist),
  \<open>history\<close> its \<open>history\<close> subcollection in the order of the additions, \<open>env\<close> whatever
  the steps read and change, \<open>clock\<close> the time \<open>datetime.utcnow()\<close> reads. Each of the three
  fault lists scripts one kind of store operation (read, write, history add): an operation
  takes the head of its list, \<open>Some m\<close> makes it raise an exception with message \<open>m\<close>, and
  an empty list means that the operation succeeds.
\<close>

record 'e world =
  doc :: "document option"
  history :: "execution_result list"
  env :: 'e
  clock :: nat
  read_faults :: "string option list"
  write_faults :: "string option list"
  add_faults :: "string option list"
  trace :: "event list"

text \<open>
  A \<open>WorkflowStep\<close>: \<open>run\<close> returns a result or raises (\<open>Inl\<close> of the exception's
  message), \<open>compensate\<close> returns or raises (\<open>Some\<close> of the message); both may change the
  environment. Every \<open>WorkflowStep\<close> has a \<open>compensate\<close> method (the base class defines
  it), so \<open>hasattr(step, "compensate")\<close> holds for each element of \<open>List[WorkflowStep]\<close>.
\<close>

record 'e workflow_step =
  name :: string
  run :: "'e \<Rightarrow> (string + val) \<times> 'e"
  compensate :: "'e \<Rightarrow> string option \<times> 'e"

record 'e orchestrator =
  workflow_name :: string
  steps :: "'e workflow_step list"
  max_retries :: int

section \<open>The Firestore client\<close>

definition next_fault :: "string option list \<Rightarrow> string option \<times> string option list" where
  "next_fault fs = (case fs of [] \<Rightarrow> (None, []) | f # fs' \<Rightarrow> (f, fs'))"

text \<open>\<open>doc_ref.get()\<close>: the snapshot (\<open>None\<close> when \<open>doc.exists\<close> is false), or an exception.\<close>

definition doc_ref_get :: "'e world \<Rightarrow> (exc + document option) \<times> 'e world" where
  "doc_ref_get w =
     (case next_fault (read_faults w) of
        (Some m, fs) \<Rightarrow> (Inl (Exc m), w\<lparr>read_faults := fs\<rparr>)
      | (None, fs) \<Rightarrow> (Inr (doc w), w\<lparr>read_faults := fs\<rparr>))"

text \<open>\<open>doc_ref.set(data, merge=True)\<close>: the fields of \<open>data\<close> replace those of the
  document, the others stay; the document is created when it does not exist.\<close>

definition merge_into :: "document option \<Rightarrow> dict \<Rightarrow> document" where
  "merge_into d data = (case d of None \<Rightarrow> Map.empty | Some m \<Rightarrow> m) ++ map_of data"

definition doc_ref_set_merge :: "dict \<Rightarrow> 'e world \<Rightarrow> (exc + unit) \<times> 'e world" where
  "doc_ref_set_merge data w =
     (case next_fault (write_faults w) of
        (Some m, fs) \<Rightarrow> (Inl (Exc m), w\<lparr>write_faults := fs\<rparr>)
      | (None, fs) \<Rightarrow>
          (Inr (), w\<lparr>doc := Some (merge_into (doc w) data),
                     write_faults := fs,
                     trace := trace w @ [EvWrite data]\<rparr>))"

text \<open>\<open>doc_ref.set(data)\<close>: the document becomes \<open>data\<close>.\<close>

definition doc_ref_set :: "dict \<Rightarrow> 'e world \<Rightarrow> (exc + unit) \<times> 'e world" where
  "doc_ref_set data w =
     (case next_fault (write_faults w) of
        (Some m, fs) \<Rightarrow> (Inl (Exc m), w\<lparr>write_faults := fs\<rparr>)
      | (None, fs) \<Rightarrow>
          (Inr (), w\<lparr>doc := Some (map_of data),
                     write_faults := fs,
                     trace := trace w @ [EvOverwrite data]\<rparr>))"

text \<open>\<open>history_ref.add(execution_data)\<close>.\<close>

definition history_ref_add :: "execution_result \<Rightarrow> 'e world \<Rightarrow> (exc + unit) \<times> 'e world" where
  "history_ref_add execution_data w =
     (case next_fault (add_faults w) of
        (Some m, fs) \<Rightarrow> (Inl (Exc m), w\<lparr>add_faults := fs\<rparr>)
      | (None, fs) \<Rightarrow> (Inr (), w\<lparr>history := history w @ [execution_data], add_faults := fs\<rparr>))"

text \<open>\<open>datetime.utcnow().isoformat()\<close>: the clock is read and moves on.\<close>

definition utcnow_isoformat :: "'e world \<Rightarrow> val \<times> 'e world" where
  "utcnow_isoformat w = (VTime (clock w), w\<lparr>clock := Suc (clock w)\<rparr>)"

section \<open>FirestoreRepo\<close>

definition get_default_state_dict :: dict where
  "get_default_state_dict =
     [(''status'', VStr ''NOT_STARTED''),
      (''last_success_step'', VInt (- 1)),
      (''current_step'', VNone),
      (''error'', VNone),
      (''started_at'', VNone),
      (''completed_at'', VNone),
      (''retry_count'', VInt 0)]"

definition get_default_state :: document where
  "get_default_state = map_of get_default_state_dict"

text \<open>\<open>get_state\<close>: the \<open>except\<close> clause returns the default state, so the function has
  no exceptional result.\<close>

definition get_state :: "'e world \<Rightarrow> document \<times> 'e world" where
  "get_state w =
     (case doc_ref_get w of
        (Inr (Some state), w') \<Rightarrow> (state, w')
      | (Inr None, w') \<Rightarrow> (get_default_state, w')
      | (Inl e, w') \<Rightarrow> (get_default_state, w'))"

text \<open>\<open>update_state\<close>: stamps \<open>updated_at\<close>, merge-writes, and re-raises what the write
  raised.\<close>

definition update_state :: "dict \<Rightarrow> 'e world \<Rightarrow> (exc + unit) \<times> 'e world" where
  "update_state data w =
     (case doc_ref_set_merge (AList.update ''updated_at'' SERVER_TIMESTAMP data) w of
        (Inr u, w') \<Rightarrow> (Inr (), w')
      | (Inl e, w') \<Rightarrow> (Inl e, w'))"

definition reset_state :: "'e world \<Rightarrow> (exc + unit) \<times> 'e world" where
  "reset_state w =
     (case doc_ref_set get_default_state_dict w of
        (Inr u, w') \<Rightarrow> (Inr (), w')
      | (Inl e, w') \<Rightarrow> (Inl e, w'))"

text \<open>\<open>save_execution_to_history\<close> sets \<open>created_at\<close> on the dict it is given (the
  caller's dict, so the caller sees it: the updated dict is returned) and swallows a
  failing addition.\<close>

definition save_execution_to_history ::
  "execution_result \<Rightarrow> 'e world \<Rightarrow> execution_result \<times> 'e world" where
  "save_execution_to_history execution_data w =
     (let execution_data' = execution_data\<lparr>created_at := Some SERVER_TIMESTAMP\<rparr>
      in case history_ref_add execution_data' w of
           (Inr u, w') \<Rightarrow> (execution_data', w')
         | (Inl e, w') \<Rightarrow> (execution_data', w'))"

section \<open>SagaOrchestrator\<close>

text \<open>\<open>dict.get(key, default)\<close>.\<close>

definition dict_get :: "document \<Rightarrow> string \<Rightarrow> val \<Rightarrow> val" where
  "dict_get d k dflt = (case d k of None \<Rightarrow> dflt | Some v \<Rightarrow> v)"

text \<open>\<open>index <= last_success_step\<close>: defined between integers, a \<open>TypeError\<close> (here
  \<open>None\<close>) for the other stored values.\<close>

fun index_le :: "nat \<Rightarrow> val \<Rightarrow> bool option" where
  "index_le i (VInt s) = Some (int i \<le> s)"
| "index_le i v = None"

text \<open>
  The body of the \<open>try\<close> in \<open>_execute_step_with_retry\<close> for one attempt: \<open>Inr\<close> of the
  SUCCESS dict it returns, or \<open>Inl\<close> of \<open>str(e)\<close> for the exception the \<open>except\<close> clause
  catches. Both calls of \<open>update_state\<close> are inside the \<open>try\<close>.
\<close>

definition try_attempt ::
  "'e workflow_step \<Rightarrow> nat \<Rightarrow> nat \<Rightarrow> 'e world \<Rightarrow> (string + step_result) \<times> 'e world" where
  "try_attempt step index attempt w =
     (case update_state [(''current_step'', VStr (name step)),
                         (''current_step_index'', VInt (int index)),
                         (''current_step_attempt'', VInt (int attempt + 1))] w of
        (Inl e, w1) \<Rightarrow> (Inl (str e), w1)
      | (Inr u, w1) \<Rightarrow>
          (case run step (env w1) of
             (Inl m, env') \<Rightarrow> (Inl m, w1\<lparr>env := env', trace := trace w1 @ [EvRun index]\<rparr>)
           | (Inr result, env') \<Rightarrow>
               (case update_state [(''last_success_step'', VInt (int index))]
                       (w1\<lparr>env := env', trace := trace w1 @ [EvRun index]\<rparr>) of
                  (Inl e, w3) \<Rightarrow> (Inl (str e), w3)
                | (Inr u', w3) \<Rightarrow>
                    (Inr \<lparr>sr_step = name step, sr_status = SUCCESS, sr_index = index,
                          sr_attempts = Some (attempt + 1), sr_result = Some result,
                          sr_error = None\<rparr>, w3))))"

text \<open>The loop \<open>for attempt in range(self.max_retries)\<close> over the attempts still to make;
  the empty list is the code after the loop.\<close>

fun retry_attempts ::
  "'e orchestrator \<Rightarrow> 'e workflow_step \<Rightarrow> nat \<Rightarrow> nat list \<Rightarrow> 'e world \<Rightarrow> step_result \<times> 'e world" where
  "retry_attempts orch step index [] w =
     (\<lparr>sr_step = name step, sr_status = FAILED, sr_index = index, sr_attempts = None,
       sr_result = None, sr_error = Some ''Max retries exceeded''\<rparr>, w)"
| "retry_attempts orch step index (attempt # rest) w =
     (case try_attempt step index attempt w of
        (Inr step_result, w') \<Rightarrow> (step_result, w')
      | (Inl e, w') \<Rightarrow>
          if int attempt = max_retries orch - 1
          then (\<lparr>sr_step = name step, sr_status = FAILED, sr_index = index,
                 sr_attempts = Some (attempt + 1), sr_result = None, sr_error = Some e\<rparr>, w')
          else retry_attempts orch step index rest w')"

definition execute_step_with_retry ::
  "'e orchestrator \<Rightarrow> 'e workflow_step \<Rightarrow> nat \<Rightarrow> 'e world \<Rightarrow> step_result \<times> 'e world" where
  "execute_step_with_retry orch step index w =
     retry_attempts orch step index [0..<nat (max_retries orch)] w"

text \<open>The loop of \<open>_run_compensations\<close> over the indices still to compensate: an
  exception of \<open>compensate\<close> is caught and the loop goes on.\<close>

fun compensate_each ::
  "'e workflow_step list \<Rightarrow> nat list \<Rightarrow> 'e world \<Rightarrow> (exc + unit) \<times> 'e world" where
  "compensate_each ss [] w = (Inr (), w)"
| "compensate_each ss (index # rest) w =
     (if index < length ss
      then (case compensate (ss ! index) (env w) of
              (raised, env') \<Rightarrow>
                compensate_each ss rest (w\<lparr>env := env', trace := trace w @ [EvCompensate index]\<rparr>))
      else (Inl IndexError, w))"

definition run_compensations ::
  "'e orchestrator \<Rightarrow> nat \<Rightarrow> 'e world \<Rightarrow> (exc + unit) \<times> 'e world" where
  "run_compensations orch failed_index w =
     compensate_each (steps orch) (rev [0..<failed_index]) w"

definition skipped :: "'e workflow_step \<Rightarrow> nat \<Rightarrow> step_result" where
  "skipped step index =
     \<lparr>sr_step = name step, sr_status = SKIPPED, sr_index = index, sr_attempts = None,
      sr_result = None, sr_error = None\<rparr>"

definition append_step :: "execution_result \<Rightarrow> step_result \<Rightarrow> execution_result" where
  "append_step er sr = er\<lparr>steps_executed := steps_executed er @ [sr]\<rparr>"

text \<open>What \<open>execute\<close> does when a step's result is FAILED: compensations, the FAILED
  state, the history entry, the return.\<close>

definition fail_workflow ::
  "'e orchestrator \<Rightarrow> 'e workflow_step \<Rightarrow> nat \<Rightarrow> step_result \<Rightarrow> execution_result \<Rightarrow> 'e world \<Rightarrow>
     (exc + exec_return) \<times> 'e world" where
  "fail_workflow orch step index step_result er w =
     (case run_compensations orch index w of
        (Inl e, w1) \<Rightarrow> (Inl e, w1)
      | (Inr u, w1) \<Rightarrow>
          (let er' = er\<lparr>er_status := FAILED, failed_step := Some (name step),
                        failed_step_index := Some index\<rparr>
           in case utcnow_isoformat w1 of
                (now, w2) \<Rightarrow>
                  (case update_state
                          [(''status'', VStr ''FAILED''),
                           (''error'', (case sr_error step_result of None \<Rightarrow> VNone | Some m \<Rightarrow> VStr m)),
                           (''failed_step'', VStr (name step)),
                           (''completed_at'', now)] w2 of
                     (Inl e, w3) \<Rightarrow> (Inl e, w3)
                   | (Inr u', w3) \<Rightarrow>
                       (case save_execution_to_history er' w3 of
                          (er'', w4) \<Rightarrow> (Inr (Execution er''), w4)))))"

text \<open>What \<open>execute\<close> does after the loop over the steps.\<close>

definition complete_workflow ::
  "'e orchestrator \<Rightarrow> execution_result \<Rightarrow> 'e world \<Rightarrow> (exc + exec_return) \<times> 'e world" where
  "complete_workflow orch er w =
     (case utcnow_isoformat w of
        (now, w1) \<Rightarrow>
          (case update_state
                  [(''status'', VStr ''SUCCESS''),
                   (''completed_at'', now),
                   (''last_success_step'', VInt (int (length (steps orch)) - 1))] w1 of
             (Inl e, w2) \<Rightarrow> (Inl e, w2)
           | (Inr u, w2) \<Rightarrow>
               (case save_execution_to_history er w2 of
                  (er', w3) \<Rightarrow> (Inr (Execution er'), w3))))"

text \<open>The loop \<open>for index, step in enumerate(self.steps)\<close> over the steps still to
  visit, with what follows it.\<close>

fun execute_steps ::
  "'e orchestrator \<Rightarrow> val \<Rightarrow> (nat \<times> 'e workflow_step) list \<Rightarrow> execution_result \<Rightarrow> 'e world \<Rightarrow>
     (exc + exec_return) \<times> 'e world" where
  "execute_steps orch last_success_step [] er w = complete_workflow orch er w"
| "execute_steps orch last_success_step ((index, step) # rest) er w =
     (case index_le index last_success_step of
        None \<Rightarrow> (Inl TypeError, w)
      | Some True \<Rightarrow>
          execute_steps orch last_success_step rest (append_step er (skipped step index)) w
      | Some False \<Rightarrow>
          (case execute_step_with_retry orch step index w of
             (step_result, w1) \<Rightarrow>
               if sr_status step_result = FAILED
               then fail_workflow orch step index step_result (append_step er step_result) w1
               else execute_steps orch last_success_step rest (append_step er step_result) w1))"

definition execute :: "'e orchestrator \<Rightarrow> bool \<Rightarrow> 'e world \<Rightarrow> (exc + exec_return) \<times> 'e world" where
  "execute orch retry w =
     (case get_state w of
        (state, w1) \<Rightarrow>
          if state ''status'' = Some (VStr ''IN_PROGRESS'') \<and> \<not> retry
          then (Inr (ALREADY_IN_PROGRESS ''Workflow is already running''), w1)
          else
            (let last_success_step = dict_get state ''last_success_step'' (VInt (- 1));
                 retry_count = (if retry then dict_get state ''retry_count'' (VInt 0) else VInt 0)
             in case utcnow_isoformat w1 of
                  (now, w2) \<Rightarrow>
                    (case update_state
                            [(''status'', VStr ''IN_PROGRESS''),
                             (''started_at'', now),
                             (''retry_count'', retry_count),
                             (''error'', VNone)] w2 of
                       (Inl e, w3) \<Rightarrow> (Inl e, w3)
                     | (Inr u, w3) \<Rightarrow>
                         execute_steps orch last_success_step (enumerate 0 (steps orch))
                           \<lparr>er_status = SUCCESS, steps_executed = [], errors = [],
                            failed_step = None, failed_step_index = None, created_at = None\<rparr>
                           w3)))"

definition get_status :: "'e world \<Rightarrow> document \<times> 'e world" where
  "get_status w = get_state w"

definition reset :: "'e world \<Rightarrow> (exc + unit) \<times> 'e world" where
  "reset w = reset_state w"

section \<open>Observing a run\<close>

text \<open>The events a run added to the trace.\<close>

definition new_events :: "'e world \<Rightarrow> 'e world \<Rightarrow> event list" where
  "new_events w w' = drop (length (trace w)) (trace w')"

text \<open>The indices of the steps whose \<open>run()\<close>, and whose \<open>compensate()\<close>, was invoked,
  in the order of the invocations.\<close>

fun run_indices :: "event list \<Rightarrow> nat list" where
  "run_indices [] = []"
| "run_indices (EvRun i # evs) = i # run_indices evs"
| "run_indices (ev # evs) = run_indices evs"

fun comp_indices :: "event list \<Rightarrow> nat list" where
  "comp_indices [] = []"
| "comp_indices (EvCompensate i # evs) = i # comp_indices evs"
| "comp_indices (ev # evs) = comp_indices evs"

text \<open>A field of the stored document (\<open>None\<close>: no document, or no such field).\<close>

definition doc_field :: "'e world \<Rightarrow> string \<Rightarrow> val option" where
  "doc_field w k = (case doc w of None \<Rightarrow> None | Some d \<Rightarrow> d k)"

text \<open>The store's next read, and its next history addition, raises.\<close>

definition read_fails :: "'e world \<Rightarrow> bool" where
  "read_fails w = (fst (next_fault (read_faults w)) \<noteq> None)"

definition add_fails :: "'e world \<Rightarrow> bool" where
  "add_fails w = (fst (next_fault (add_faults w)) \<noteq> None)"

text \<open>
  The values of \<open>last_success_step\<close> that the store accepted, in the order of the
  writes, and the value a read of the stored document gives for
  \<open>state.get("last_success_step", -1)\<close>.
\<close>

fun lss_of :: "dict \<Rightarrow> int list" where
  "lss_of data = (case map_of data ''last_success_step'' of Some (VInt v) \<Rightarrow> [v] | _ \<Rightarrow> [])"

fun lss_writes :: "event list \<Rightarrow> int list" where
  "lss_writes [] = []"
| "lss_writes (EvWrite data # evs) = lss_of data @ lss_writes evs"
| "lss_writes (EvOverwrite data # evs) = lss_of data @ lss_writes evs"
| "lss_writes (ev # evs) = lss_writes evs"

definition stored_checkpoint :: "'e world \<Rightarrow> val" where
  "stored_checkpoint w =
     (case doc_field w ''last_success_step'' of None \<Rightarrow> VInt (- 1) | Some v \<Rightarrow> v)"

text \<open>
  What an operation that only merge-writes and calls steps does to the world: it adds
  events to the trace, leaves the history and the scripts of reads and history additions
  alone, and consumes entries of the script of writes.
\<close>

definition effect :: "'e world \<Rightarrow> 'e world \<Rightarrow> event list \<Rightarrow> bool" where
  "effect w w' evs \<longleftrightarrow>
     trace w' = trace w @ evs \<and> history w' = history w \<and> add_faults w' = add_faults w
     \<and> read_faults w' = read_faults w \<and> set (write_faults w') \<subseteq> set (write_faults w)"

text \<open>Successive calls of \<open>execute\<close> with the given \<open>retry\<close> arguments; what a call
  returns or raises is dropped, the world goes on.\<close>

fun execute_all :: "'e orchestrator \<Rightarrow> bool list \<Rightarrow> 'e world \<Rightarrow> 'e world" where
  "execute_all orch [] w = w"
| "execute_all orch (retry # retries) w = execute_all orch retries (snd (execute orch retry w))"






section \<open>Example worlds and workflows\<close>

text \<open>A store with no document and no fault, and an orchestrator without steps.\<close>

definition fresh_world :: "nat world" where
  "fresh_world =
     \<lparr>doc = None, history = [], env = 0, clock = 0, read_faults = [], write_faults = [],
      add_faults = [], trace = []\<rparr>"

definition no_steps :: "nat orchestrator" where
  "no_steps = \<lparr>workflow_name = ''daily'', steps = [], max_retries = 3\<rparr>"

text \<open>A run is under way: the document says \<open>IN_PROGRESS\<close>.\<close>

definition in_progress_world :: "nat world" where
  "in_progress_world =
     fresh_world\<lparr>doc := Some [''status'' \<mapsto> VStr ''IN_PROGRESS'',
                              ''last_success_step'' \<mapsto> VInt 0]\<rparr>"

text \<open>The same document behind a store whose next read, and next write, raises.\<close>

definition unreadable_world :: "nat world" where
  "unreadable_world = in_progress_world\<lparr>read_faults := [Some ''unavailable'']\<rparr>"

definition unwritable_world :: "nat world" where
  "unwritable_world = in_progress_world\<lparr>write_faults := [Some ''unavailable'']\<rparr>"

text \<open>
  Steps over a counter: \<open>step_ok\<close> succeeds and counts the call, \<open>step_bad\<close> always
  raises, \<open>step_flaky\<close> raises until the counter has reached 2; the compensation of
  \<open>step_ok\<close> raises.
\<close>

definition step_ok :: "string \<Rightarrow> nat workflow_step" where
  "step_ok n =
     \<lparr>name = n, run = (\<lambda>e. (Inr (VStr ''done''), Suc e)),
      compensate = (\<lambda>e. (Some ''cannot undo'', e))\<rparr>"









text \<open>
  A step that succeeds until the counter has reached 2, the workflow \<open>[A, B]\<close> with it
  as \<open>B\<close> (the first run succeeds, a second run of \<open>B\<close> fails), and a store whose
  second read raises.
\<close>

definition step_once :: "string \<Rightarrow> nat workflow_step" where
  "step_once n =
     \<lparr>name = n,
      run = (\<lambda>e. if e < 2 then (Inr (VStr ''done''), Suc e) else (Inl ''gone'', e)),
      compensate = (\<lambda>e. (None, e))\<rparr>"

definition ab_once :: "nat orchestrator" where
  "ab_once =
     \<lparr>workflow_name = ''daily'', steps = [step_ok ''A'', step_once ''B''], max_retries = 1\<rparr>"

definition second_read_fails_world :: "nat world" where
  "second_read_fails_world = fresh_world\<lparr>read_faults := [None, Some ''unavailable'']\<rparr>"


section \<open>The store's operations\<close>

lemma next_fault_Nil: "next_fault [] = (None, [])"
  by (simp add: next_fault_def)

lemma get_state_snd: "snd (get_state w) = w\<lparr>read_faults := snd (next_fault (read_faults w))\<rparr>"
  by (cases "next_fault (read_faults w)"; cases "fst (next_fault (read_faults w))"; cases "doc w")
     (simp_all add: get_state_def doc_ref_get_def)

lemma get_state_fst:
  "fst (get_state w) =
     (if read_fails w then get_default_state
      else case doc w of None \<Rightarrow> get_default_state | Some d \<Rightarrow> d)"
  by (cases "next_fault (read_faults w)"; cases "fst (next_fault (read_faults w))"; cases "doc w")
     (simp_all add: get_state_def doc_ref_get_def read_fails_def)

lemma update_state_ok:
  "fst (next_fault (write_faults w)) = None \<Longrightarrow>
   update_state data w =
     (Inr (), w\<lparr>doc := Some (merge_into (doc w)
                              (AList.update ''updated_at'' SERVER_TIMESTAMP data)),
                write_faults := snd (next_fault (write_faults w)),
                trace := trace w @ [EvWrite (AList.update ''updated_at'' SERVER_TIMESTAMP data)]\<rparr>)"
  by (cases "next_fault (write_faults w)") (simp add: update_state_def doc_ref_set_merge_def)

lemma update_state_fail:
  "fst (next_fault (write_faults w)) = Some m \<Longrightarrow>
   update_state data w = (Inl (Exc m), w\<lparr>write_faults := snd (next_fault (write_faults w))\<rparr>)"
  by (cases "next_fault (write_faults w)") (simp add: update_state_def doc_ref_set_merge_def)

lemma default_state_fields:
  "get_default_state ''status'' = Some (VStr ''NOT_STARTED'')"
  "get_default_state ''last_success_step'' = Some (VInt (- 1))"
  "get_default_state ''current_step'' = Some VNone"
  "get_default_state ''error'' = Some VNone"
  "get_default_state ''started_at'' = Some VNone"
  "get_default_state ''completed_at'' = Some VNone"
  "get_default_state ''retry_count'' = Some (VInt 0)"
  by (simp_all add: get_default_state_def get_default_state_dict_def)

lemma default_state_dom:
  "dom get_default_state =
     {''status'', ''last_success_step'', ''current_step'', ''error'', ''started_at'',
      ''completed_at'', ''retry_count''}"
  by (simp add: get_default_state_def get_default_state_dict_def dom_map_of_conv_image_fst)

lemma update_state_healthy:
  "write_faults w = [] \<Longrightarrow>
   update_state data w =
     (Inr (), w\<lparr>doc := Some (merge_into (doc w) (AList.update ''updated_at'' SERVER_TIMESTAMP data)),
                trace := trace w @ [EvWrite (AList.update ''updated_at'' SERVER_TIMESTAMP data)]\<rparr>)"
  by (simp add: update_state_ok next_fault_Nil)





lemma save_history_fst:
  "fst (save_execution_to_history er w) = er\<lparr>created_at := Some SERVER_TIMESTAMP\<rparr>"
  by (cases "next_fault (add_faults w)"; cases "fst (next_fault (add_faults w))")
     (simp_all add: save_execution_to_history_def history_ref_add_def Let_def)

lemma save_history_snd:
  "snd (save_execution_to_history er w) =
     (if add_fails w then w\<lparr>add_faults := snd (next_fault (add_faults w))\<rparr>
      else w\<lparr>history := history w @ [er\<lparr>created_at := Some SERVER_TIMESTAMP\<rparr>],
              add_faults := snd (next_fault (add_faults w))\<rparr>)"
  by (cases "next_fault (add_faults w)"; cases "fst (next_fault (add_faults w))")
     (simp_all add: save_execution_to_history_def history_ref_add_def Let_def add_fails_def)

lemma merge_into_apply:
  "merge_into d data k =
     (case map_of data k of None \<Rightarrow> (case d of None \<Rightarrow> None | Some m \<Rightarrow> m k) | Some v \<Rightarrow> Some v)"
  by (simp add: merge_into_def map_add_def split: option.splits)



text \<open>
  C8. \<open>get_state\<close> returns the stored document when it exists and the read succeeds; it
  returns the default state (status \<open>NOT_STARTED\<close>, \<open>last_success_step\<close> -1, \<open>retry_count\<close> 0,
  \<open>None\<close> for \<open>current_step\<close>, \<open>error\<close> and both timestamps) when there is no document and
  when the read raises. It has no exceptional result, so a failing read reaches no caller.
  \<open>update_state\<close>, when the write raises, raises the same exception and leaves the
  document as it was.
\<close>

theorem get_state_defaults_and_update_state_raises:
  "(\<not> read_fails w \<longrightarrow> doc w = Some d \<longrightarrow> fst (get_state w) = d)
   \<and> (\<not> read_fails w \<longrightarrow> doc w = None \<longrightarrow> fst (get_state w) = get_default_state)
   \<and> (read_fails w \<longrightarrow> fst (get_state w) = get_default_state)
   \<and> doc (snd (get_state w)) = doc w
   \<and> get_default_state ''status'' = Some (VStr ''NOT_STARTED'')
   \<and> get_default_state ''last_success_step'' = Some (VInt (- 1))
   \<and> get_default_state ''retry_count'' = Some (VInt 0)
   \<and> get_default_state ''current_step'' = Some VNone
   \<and> get_default_state ''error'' = Some VNone
   \<and> get_default_state ''started_at'' = Some VNone
   \<and> get_default_state ''completed_at'' = Some VNone
   \<and> (fst (next_fault (write_faults w)) = Some m \<longrightarrow>
         fst (update_state data w) = Inl (Exc m) \<and> doc (snd (update_state data w)) = doc w)"
  by (simp add: get_state_fst get_state_snd default_state_fields update_state_fail)

theorem get_state_defaults_and_update_state_raises_witness:
  "\<not> read_fails in_progress_world
   \<and> doc in_progress_world = Some [''status'' \<mapsto> VStr ''IN_PROGRESS'', ''last_success_step'' \<mapsto> VInt 0]
   \<and> fst (get_state in_progress_world)
       = [''status'' \<mapsto> VStr ''IN_PROGRESS'', ''last_success_step'' \<mapsto> VInt 0]
   \<and> \<not> read_fails fresh_world \<and> doc fresh_world = None
   \<and> fst (get_state fresh_world) = get_default_state
   \<and> read_fails unreadable_world
   \<and> fst (get_state unreadable_world) = get_default_state
   \<and> fst (next_fault (write_faults unwritable_world)) = Some ''unavailable''
   \<and> fst (update_state [(''status'', VStr ''FAILED'')] unwritable_world) = Inl (Exc ''unavailable'')
   \<and> doc (snd (update_state [(''status'', VStr ''FAILED'')] unwritable_world)) = doc unwritable_world"
  using get_state_defaults_and_update_state_raises
          [of in_progress_world "[''status'' \<mapsto> VStr ''IN_PROGRESS'', ''last_success_step'' \<mapsto> VInt 0]"
              "''unavailable''" "[(''status'', VStr ''FAILED'')]"]
        get_state_defaults_and_update_state_raises
          [of fresh_world "Map.empty" "''unavailable''" "[(''status'', VStr ''FAILED'')]"]
        get_state_defaults_and_update_state_raises
          [of unreadable_world "Map.empty" "''unavailable''" "[(''status'', VStr ''FAILED'')]"]
        get_state_defaults_and_update_state_raises
          [of unwritable_world "Map.empty" "''unavailable''" "[(''status'', VStr ''FAILED'')]"]
  by (simp add: read_fails_def next_fault_def fresh_world_def in_progress_world_def
        unreadable_world_def unwritable_world_def)

text \<open>
  C9. When \<open>reset\<close> returns (the overwrite did not raise), the stored document is the
  default state whatever it was before, and the \<open>get_status\<close> that follows returns
  exactly the default state: \<open>NOT_STARTED\<close>, \<open>last_success_step\<close> -1, \<open>retry_count\<close> 0,
  \<open>None\<close> for \<open>current_step\<close>, \<open>error\<close>, \<open>started_at\<close> and \<open>completed_at\<close>, and no other
  field.
\<close>

theorem reset_then_get_status_is_default:
  assumes "reset w = (Inr (), w1)"  and "get_status w1 = (st, w2)"
  shows "doc w1 = Some get_default_state
       \<and> st ''status'' = Some (VStr ''NOT_STARTED'')
       \<and> st ''last_success_step'' = Some (VInt (- 1))
       \<and> st ''current_step'' = Some VNone
       \<and> st ''error'' = Some VNone
       \<and> st ''retry_count'' = Some (VInt 0)
       \<and> st ''started_at'' = Some VNone
       \<and> st ''completed_at'' = Some VNone
       \<and> dom st = {''status'', ''last_success_step'', ''current_step'', ''error'',
                   ''started_at'', ''completed_at'', ''retry_count''}"
proof -
  from assms(1) have d: "doc w1 = Some get_default_state"
    by (cases "next_fault (write_faults w)"; cases "fst (next_fault (write_faults w))")
       (auto simp: reset_def reset_state_def doc_ref_set_def get_default_state_def)
  have "st = fst (get_state w1)"
    using assms(2) by (simp add: get_status_def)
  with d have "st = get_default_state"
    by (simp add: get_state_fst)
  with d show ?thesis
    by (simp add: default_state_fields default_state_dom)
qed

theorem reset_then_get_status_is_default_witness:
  "reset in_progress_world = (Inr (), snd (reset in_progress_world))
   \<and> doc in_progress_world \<noteq> Some get_default_state
   \<and> doc (snd (reset in_progress_world)) = Some get_default_state
   \<and> fst (get_status (snd (reset in_progress_world))) ''status'' = Some (VStr ''NOT_STARTED'')
   \<and> fst (get_status (snd (reset in_progress_world))) ''last_success_step'' = Some (VInt (- 1))"
proof -
  have r: "reset in_progress_world = (Inr (), snd (reset in_progress_world))"
    by (simp add: reset_def reset_state_def doc_ref_set_def next_fault_def
          in_progress_world_def fresh_world_def)
  have n: "doc in_progress_world \<noteq> Some get_default_state"
  proof
    assume "doc in_progress_world = Some get_default_state"
    then have "[''status'' \<mapsto> VStr ''IN_PROGRESS'', ''last_success_step'' \<mapsto> VInt 0] ''status''
                 = get_default_state ''status''"
      by (simp add: in_progress_world_def fresh_world_def)
    then show False
      by (simp add: default_state_fields)
  qed
  have g: "get_status (snd (reset in_progress_world))
             = (fst (get_status (snd (reset in_progress_world))),
                snd (get_status (snd (reset in_progress_world))))"
    by simp
  from reset_then_get_status_is_default [OF r g] r n show ?thesis
    by simp
qed

section \<open>The guard against a run under way\<close>

text \<open>
  C5. When the state that \<open>execute\<close> reads at its start has status \<open>IN_PROGRESS\<close> and
  \<open>retry\<close> is false, \<open>execute\<close> returns the \<open>ALREADY_IN_PROGRESS\<close> result, and the world
  it leaves differs from the one it found only in the read it consumed: no write was
  attempted (the document, the script of the writes and the trace are the same), and no
  \<open>run()\<close> or \<open>compensate()\<close> was invoked (the trace and the environment are the same).
\<close>

theorem in_progress_guard_returns_early:
  assumes "fst (get_state w) ''status'' = Some (VStr ''IN_PROGRESS'')"
  shows "execute orch False w =
           (Inr (ALREADY_IN_PROGRESS ''Workflow is already running''),
            w\<lparr>read_faults := snd (next_fault (read_faults w))\<rparr>)"
  using assms get_state_snd [of w] by (cases "get_state w") (simp add: execute_def)

theorem in_progress_guard_returns_early_witness:
  "fst (get_state in_progress_world) ''status'' = Some (VStr ''IN_PROGRESS'')
   \<and> execute no_steps False in_progress_world =
       (Inr (ALREADY_IN_PROGRESS ''Workflow is already running''), in_progress_world)"
proof -
  have h: "fst (get_state in_progress_world) ''status'' = Some (VStr ''IN_PROGRESS'')"
    by (simp add: get_state_fst read_fails_def next_fault_def in_progress_world_def
          fresh_world_def)
  have "in_progress_world\<lparr>read_faults := snd (next_fault (read_faults in_progress_world))\<rparr>
          = in_progress_world"
    by (simp add: next_fault_def in_progress_world_def fresh_world_def)
  with in_progress_guard_returns_early [OF h, of no_steps] h show ?thesis
    by simp
qed

section \<open>Runs on a store that accepts the writes\<close>

text \<open>
  C10. An orchestrator with an empty step list, run with \<open>retry = False\<close> from the
  default \<open>NOT_STARTED\<close> state (no document, or the default document) on a store that
  accepts the writes: \<open>execute\<close> returns a SUCCESS result with no step results, the
  document ends with \<open>status = SUCCESS\<close> and \<open>last_success_step = -1\<close> (the value of the
  default state), and neither \<open>run()\<close> nor \<open>compensate()\<close> was invoked.
\<close>

theorem empty_workflow_succeeds:
  assumes "steps orch = []" and "doc w = None \<or> doc w = Some get_default_state"
    and "write_faults w = []"
  shows "\<exists>res w'. execute orch False w = (Inr (Execution res), w')
     \<and> er_status res = SUCCESS \<and> steps_executed res = []
     \<and> doc_field w' ''status'' = Some (VStr ''SUCCESS'')
     \<and> doc_field w' ''last_success_step'' = Some (VInt (- 1))
     \<and> run_indices (new_events w w') = [] \<and> comp_indices (new_events w w') = []"
proof -
  have st: "fst (get_state w) = get_default_state"
    using assms(2) by (auto simp: get_state_fst)
  show ?thesis
    using st get_state_snd [of w] assms(1,3)
    by (cases "get_state w")
       (simp add: execute_def default_state_fields dict_get_def utcnow_isoformat_def
          update_state_healthy complete_workflow_def split_beta save_history_fst
          save_history_snd new_events_def merge_into_apply doc_field_def Let_def)
qed

theorem empty_workflow_succeeds_witness:
  "\<exists>res w'. execute no_steps False fresh_world = (Inr (Execution res), w')
     \<and> er_status res = SUCCESS \<and> steps_executed res = []
     \<and> doc_field w' ''status'' = Some (VStr ''SUCCESS'')
     \<and> doc_field w' ''last_success_step'' = Some (VInt (- 1))
     \<and> run_indices (new_events fresh_world w') = []
     \<and> comp_indices (new_events fresh_world w') = []"
  by (rule empty_workflow_succeeds [of no_steps fresh_world])
     (simp_all add: no_steps_def fresh_world_def)




section \<open>The retry loop\<close>






section \<open>Effects of the operations, whatever the store does\<close>

lemma next_fault_subset: "set (snd (next_fault fs)) \<subseteq> set fs"
  by (cases fs) (auto simp: next_fault_def)

lemma next_fault_mem: "fst (next_fault fs) = Some m \<Longrightarrow> Some m \<in> set fs"
  by (cases fs) (auto simp: next_fault_def)

lemma effect_refl: "effect w w []"
  by (simp add: effect_def)

lemma effect_trans: "effect w w1 e1 \<Longrightarrow> effect w1 w2 e2 \<Longrightarrow> effect w w2 (e1 @ e2)"
  by (auto simp: effect_def)

lemma run_indices_append: "run_indices (xs @ ys) = run_indices xs @ run_indices ys"
  by (induction xs rule: run_indices.induct) simp_all

lemma comp_indices_append: "comp_indices (xs @ ys) = comp_indices xs @ comp_indices ys"
  by (induction xs rule: comp_indices.induct) simp_all

lemma lss_writes_append: "lss_writes (xs @ ys) = lss_writes xs @ lss_writes ys"
  by (induction xs rule: lss_writes.induct) simp_all

lemma comp_indices_map: "comp_indices (map EvCompensate is) = is"
  by (induction "is") simp_all

lemma run_indices_map_comp: "run_indices (map EvCompensate is) = []"
  by (induction "is") simp_all

lemma lss_writes_map_comp: "lss_writes (map EvCompensate is) = []"
  by (induction "is") simp_all

lemma stored_checkpoint_doc: "doc w' = doc w \<Longrightarrow> stored_checkpoint w' = stored_checkpoint w"
  by (simp add: stored_checkpoint_def doc_field_def)

lemma stored_checkpoint_merged:
  "doc w' = Some (merge_into (doc w) data) \<Longrightarrow>
   stored_checkpoint w' =
     (case map_of data ''last_success_step'' of None \<Rightarrow> stored_checkpoint w | Some v \<Rightarrow> v)"
  by (simp add: stored_checkpoint_def doc_field_def merge_into_apply split: option.splits)

lemma stored_checkpoint_frame:
  "stored_checkpoint (w\<lparr>trace := t\<rparr>) = stored_checkpoint w"
  "stored_checkpoint (w\<lparr>env := e\<rparr>) = stored_checkpoint w"
  "stored_checkpoint (w\<lparr>clock := c\<rparr>) = stored_checkpoint w"
  "stored_checkpoint (w\<lparr>history := h\<rparr>) = stored_checkpoint w"
  "stored_checkpoint (w\<lparr>add_faults := f\<rparr>) = stored_checkpoint w"
  by (simp_all add: stored_checkpoint_def doc_field_def)

text \<open>A merge-write either is accepted, or raises a message of the script of writes
  and changes nothing else.\<close>

lemma update_state_effect:
  assumes "update_state data w = (r, w')"
  shows "env w' = env w \<and> clock w' = clock w
     \<and> (case r of
           Inr u \<Rightarrow> effect w w' [EvWrite (AList.update ''updated_at'' SERVER_TIMESTAMP data)]
                    \<and> doc w' = Some (merge_into (doc w)
                                      (AList.update ''updated_at'' SERVER_TIMESTAMP data))
         | Inl e \<Rightarrow> effect w w' [] \<and> doc w' = doc w
                    \<and> (\<exists>m. e = Exc m \<and> Some m \<in> set (write_faults w)))"
proof (cases "fst (next_fault (write_faults w))")
  case None
  then show ?thesis
    using assms next_fault_subset [of "write_faults w"]
    by (auto simp: update_state_ok effect_def)
next
  case (Some m)
  then show ?thesis
    using assms next_fault_subset [of "write_faults w"] next_fault_mem [of "write_faults w" m]
    by (auto simp: update_state_fail effect_def)
qed

text \<open>One attempt: it invokes \<open>run()\<close> of its step at most, compensates nothing, and
  writes \<open>last_success_step\<close> exactly when it returns the SUCCESS result.\<close>

lemma try_attempt_effect:
  assumes "try_attempt step index attempt w = (r, w')"
  shows "\<exists>evs. effect w w' evs \<and> comp_indices evs = [] \<and> set (run_indices evs) \<subseteq> {index}
     \<and> (case r of
           Inr sr \<Rightarrow> sr_status sr = SUCCESS \<and> sr_index sr = index \<and> sr_step sr = name step
                     \<and> lss_writes evs = [int index] \<and> stored_checkpoint w' = VInt (int index)
         | Inl m \<Rightarrow> lss_writes evs = [] \<and> stored_checkpoint w' = stored_checkpoint w)"
proof -
  obtain r1 w1 where u1: "update_state [(''current_step'', VStr (name step)),
        (''current_step_index'', VInt (int index)),
        (''current_step_attempt'', VInt (int attempt + 1))] w = (r1, w1)"
    by fastforce
  note f1 = update_state_effect [OF u1]
  show ?thesis
  proof (cases r1)
    case (Inl e)
    then have "r = Inl (str e)" "w' = w1"
      using assms u1 by (simp_all add: try_attempt_def)
    then show ?thesis
      using f1 Inl stored_checkpoint_doc [of w1 w] by (intro exI [of _ "[]"]) simp
  next
    case (Inr u)
    define ev1 where "ev1 = EvWrite (AList.update ''updated_at'' SERVER_TIMESTAMP
        [(''current_step'', VStr (name step)), (''current_step_index'', VInt (int index)),
         (''current_step_attempt'', VInt (int attempt + 1))])"
    define ev3 where "ev3 = EvWrite (AList.update ''updated_at'' SERVER_TIMESTAMP
               [(''last_success_step'', VInt (int index))])"
    have l1: "lss_writes [ev1] = []" "comp_indices [ev1] = []" "run_indices [ev1] = []"
      and l3: "lss_writes [ev3] = [int index]" "comp_indices [ev3] = []" "run_indices [ev3] = []"
      by (simp_all add: ev1_def ev3_def)
    have e1: "effect w w1 [ev1]"
      and c1: "stored_checkpoint w1 = stored_checkpoint w"
      using f1 Inr by (simp_all add: stored_checkpoint_merged ev1_def)
    obtain o1 env' where ru: "run step (env w1) = (o1, env')"
      by fastforce
    have e2: "effect w1 (w1\<lparr>env := env', trace := trace w1 @ [EvRun index]\<rparr>) [EvRun index]"
      by (simp add: effect_def)
    have c2: "stored_checkpoint (w1\<lparr>env := env', trace := trace w1 @ [EvRun index]\<rparr>)
                = stored_checkpoint w"
      using c1 by (simp add: stored_checkpoint_frame)
    show ?thesis
    proof (cases o1)
      case (Inl m)
      then have "r = Inl m" "w' = w1\<lparr>env := env', trace := trace w1 @ [EvRun index]\<rparr>"
        using assms u1 Inr ru by (simp_all add: try_attempt_def)
      then show ?thesis
        using effect_trans [OF e1 e2] c2 l1
        by (intro exI [of _ "[ev1] @ [EvRun index]"])
           (simp add: lss_writes_append comp_indices_append run_indices_append del: append.simps)
    next
      case res: (Inr res)
      obtain r3 w3 where u3: "update_state [(''last_success_step'', VInt (int index))]
          (w1\<lparr>env := env', trace := trace w1 @ [EvRun index]\<rparr>) = (r3, w3)"
        by fastforce
      note f3 = update_state_effect [OF u3]
      show ?thesis
      proof (cases r3)
        case (Inl e)
        then have "r = Inl (str e)" "w' = w3"
          using assms u1 Inr ru res u3 by (simp_all add: try_attempt_def)
        moreover have "effect (w1\<lparr>env := env', trace := trace w1 @ [EvRun index]\<rparr>) w3 []"
          "stored_checkpoint w3 = stored_checkpoint w"
          using f3 Inl c2 stored_checkpoint_doc [of w3 "w1\<lparr>env := env', trace := trace w1 @ [EvRun index]\<rparr>"]
          by simp_all
        ultimately show ?thesis
          using effect_trans [OF effect_trans [OF e1 e2]] l1
          by (intro exI [of _ "([ev1] @ [EvRun index]) @ []"])
             (simp add: lss_writes_append comp_indices_append run_indices_append
                del: append.simps append_Nil2)
      next
        case ok: (Inr u')
        then have "r = Inr \<lparr>sr_step = name step, sr_status = SUCCESS, sr_index = index,
                     sr_attempts = Some (attempt + 1), sr_result = Some res, sr_error = None\<rparr>"
          "w' = w3"
          using assms u1 Inr ru res u3 by (simp_all add: try_attempt_def)
        moreover have "effect (w1\<lparr>env := env', trace := trace w1 @ [EvRun index]\<rparr>) w3 [ev3]"
          "stored_checkpoint w3 = VInt (int index)"
          using f3 ok by (simp_all add: stored_checkpoint_merged ev3_def)
        ultimately show ?thesis
          using effect_trans [OF effect_trans [OF e1 e2]] l1 l3
          by (intro exI [of _ "([ev1] @ [EvRun index]) @ [ev3]"])
             (simp add: lss_writes_append comp_indices_append run_indices_append
                del: append.simps)
      qed
    qed
  qed
qed

text \<open>The retry loop: it invokes \<open>run()\<close> of its step only, compensates nothing, and
  returns either a SUCCESS result after the one write of \<open>last_success_step\<close>, or a
  FAILED result with \<open>last_success_step\<close> untouched.\<close>

lemma retry_attempts_effect:
  assumes "retry_attempts orch step index as w = (sr, w')"
  shows "\<exists>evs. effect w w' evs \<and> comp_indices evs = [] \<and> set (run_indices evs) \<subseteq> {index}
     \<and> sr_index sr = index \<and> sr_step sr = name step
     \<and> (sr_status sr = SUCCESS \<and> lss_writes evs = [int index]
          \<and> stored_checkpoint w' = VInt (int index)
        \<or> sr_status sr = FAILED \<and> lss_writes evs = []
          \<and> stored_checkpoint w' = stored_checkpoint w)"
  using assms
proof (induction as arbitrary: w)
  case Nil
  then show ?case
    by (intro exI [of _ "[]"]) (auto simp: effect_refl)
next
  case (Cons attempt rest)
  obtain r1 w1 where t: "try_attempt step index attempt w = (r1, w1)"
    by fastforce
  from try_attempt_effect [OF t] obtain evs1 where
    e1: "effect w w1 evs1" "comp_indices evs1 = []" "set (run_indices evs1) \<subseteq> {index}"
    and c1: "case r1 of
           Inr sr \<Rightarrow> sr_status sr = SUCCESS \<and> sr_index sr = index \<and> sr_step sr = name step
                     \<and> lss_writes evs1 = [int index] \<and> stored_checkpoint w1 = VInt (int index)
         | Inl m \<Rightarrow> lss_writes evs1 = [] \<and> stored_checkpoint w1 = stored_checkpoint w"
    by blast
  show ?case
  proof (cases r1)
    case (Inr sr1)
    then have "sr = sr1" "w' = w1"
      using Cons.prems t by simp_all
    then show ?thesis
      using e1 c1 Inr by (intro exI [of _ evs1]) simp
  next
    case (Inl m)
    show ?thesis
    proof (cases "int attempt = max_retries orch - 1")
      case True
      then have "sr = \<lparr>sr_step = name step, sr_status = FAILED, sr_index = index,
                 sr_attempts = Some (attempt + 1), sr_result = None, sr_error = Some m\<rparr>"
        "w' = w1"
        using Cons.prems t Inl by simp_all
      then show ?thesis
        using e1 c1 Inl by (intro exI [of _ evs1]) simp
    next
      case False
      then have "retry_attempts orch step index rest w1 = (sr, w')"
        using Cons.prems t Inl by simp
      from Cons.IH [OF this] obtain evs2 where
        e2: "effect w1 w' evs2" "comp_indices evs2 = []" "set (run_indices evs2) \<subseteq> {index}"
          "sr_index sr = index" "sr_step sr = name step"
          "sr_status sr = SUCCESS \<and> lss_writes evs2 = [int index]
              \<and> stored_checkpoint w' = VInt (int index)
           \<or> sr_status sr = FAILED \<and> lss_writes evs2 = []
              \<and> stored_checkpoint w' = stored_checkpoint w1"
        by blast
      show ?thesis
        using effect_trans [OF e1(1) e2(1)] e1 e2 c1 Inl
        by (intro exI [of _ "evs1 @ evs2"])
           (auto simp: comp_indices_append run_indices_append lss_writes_append)
    qed
  qed
qed

text \<open>The compensation sweep visits the indices it is given, in order, whatever the
  compensations return or raise, and changes nothing but the environment.\<close>

lemma compensate_each_effect:
  assumes "\<forall>i\<in>set is. i < length ss"
  shows "\<exists>e'. compensate_each ss is w =
           (Inr (), w\<lparr>env := e', trace := trace w @ map EvCompensate is\<rparr>)"
  using assms
proof (induction "is" arbitrary: w)
  case Nil
  show ?case by (intro exI [of _ "env w"]) simp
next
  case (Cons i rest)
  obtain raised env' where c: "compensate (ss ! i) (env w) = (raised, env')"
    by fastforce
  from Cons.prems have "\<forall>i\<in>set rest. i < length ss" by simp
  from Cons.IH [OF this, of "w\<lparr>env := env', trace := trace w @ [EvCompensate i]\<rparr>"]
  obtain e' where "compensate_each ss rest (w\<lparr>env := env', trace := trace w @ [EvCompensate i]\<rparr>)
      = (Inr (), w\<lparr>env := e', trace := trace w @ EvCompensate i # map EvCompensate rest\<rparr>)"
    by auto
  then show ?case
    using Cons.prems c by (intro exI [of _ e']) simp
qed

lemma run_compensations_effect:
  assumes "k \<le> length (steps orch)"
  shows "\<exists>e'. run_compensations orch k w =
           (Inr (), w\<lparr>env := e', trace := trace w @ map EvCompensate (rev [0..<k])\<rparr>)"
  unfolding run_compensations_def using assms by (intro compensate_each_effect) auto

text \<open>The failure path of \<open>execute\<close>: the sweep over \<open>index - 1, ..., 0\<close>, then the
  FAILED result, unless the write of the FAILED state raises.\<close>

lemma fail_workflow_effect:
  assumes "fail_workflow orch step index sr er w = (out, w')" and "index \<le> length (steps orch)"
  shows "\<exists>evs. trace w' = trace w @ evs \<and> comp_indices evs = rev [0..<index]
     \<and> run_indices evs = [] \<and> lss_writes evs = []
     \<and> stored_checkpoint w' = stored_checkpoint w \<and> read_faults w' = read_faults w
     \<and> (out = Inr (Execution (er\<lparr>er_status := FAILED, failed_step := Some (name step),
                                  failed_step_index := Some index,
                                  created_at := Some SERVER_TIMESTAMP\<rparr>))
        \<or> (\<exists>m. out = Inl (Exc m) \<and> Some m \<in> set (write_faults w)))"
proof -
  obtain e' where rc: "run_compensations orch index w =
      (Inr (), w\<lparr>env := e', trace := trace w @ map EvCompensate (rev [0..<index])\<rparr>)"
    using run_compensations_effect [OF assms(2)] by blast
  define w1 where "w1 = w\<lparr>env := e', trace := trace w @ map EvCompensate (rev [0..<index])\<rparr>"
  define data where "data = [(''status'', VStr ''FAILED''),
       (''error'', (case sr_error sr of None \<Rightarrow> VNone | Some m \<Rightarrow> VStr m)),
       (''failed_step'', VStr (name step)), (''completed_at'', VTime (clock w1))]"
  obtain r3 w3 where u3: "update_state data (w1\<lparr>clock := Suc (clock w1)\<rparr>) = (r3, w3)"
    by fastforce
  note f3 = update_state_effect [OF u3]
  have fw: "fail_workflow orch step index sr er w =
      (case r3 of Inl e \<Rightarrow> (Inl e, w3)
       | Inr u \<Rightarrow> (case save_execution_to_history
                       (er\<lparr>er_status := FAILED, failed_step := Some (name step),
                           failed_step_index := Some index\<rparr>) w3 of
                    (er'', w4) \<Rightarrow> (Inr (Execution er''), w4)))"
    using u3 by (simp add: fail_workflow_def rc utcnow_isoformat_def Let_def w1_def data_def)
  have nl: "map_of (AList.update ''updated_at'' SERVER_TIMESTAMP data) ''last_success_step'' = None"
    by (simp add: data_def)
  have t1: "trace w1 = trace w @ map EvCompensate (rev [0..<index])"
    "read_faults w1 = read_faults w" "write_faults w1 = write_faults w"
    "stored_checkpoint w1 = stored_checkpoint w"
    by (simp_all add: w1_def stored_checkpoint_frame)
  show ?thesis
  proof (cases r3)
    case (Inl e)
    then have "out = Inl e" "w' = w3"
      using assms(1) fw by simp_all
    then show ?thesis
      using f3 Inl t1 stored_checkpoint_doc [of w3 "w1\<lparr>clock := Suc (clock w1)\<rparr>"]
      by (intro exI [of _ "map EvCompensate (rev [0..<index])"])
         (auto simp: effect_def comp_indices_map run_indices_map_comp lss_writes_map_comp
            stored_checkpoint_frame)
  next
    case (Inr u)
    define ev where "ev = EvWrite (AList.update ''updated_at'' SERVER_TIMESTAMP data)"
    have l: "lss_writes [ev] = []" "comp_indices [ev] = []" "run_indices [ev] = []"
      using nl by (simp_all add: ev_def)
    have "out = Inr (Execution (fst (save_execution_to_history
                       (er\<lparr>er_status := FAILED, failed_step := Some (name step),
                           failed_step_index := Some index\<rparr>) w3)))"
      "w' = snd (save_execution_to_history
                       (er\<lparr>er_status := FAILED, failed_step := Some (name step),
                           failed_step_index := Some index\<rparr>) w3)"
      using assms(1) fw Inr by (simp_all add: split_beta)
    moreover have "trace w3 = trace w @ map EvCompensate (rev [0..<index]) @ [ev]"
      "read_faults w3 = read_faults w" "stored_checkpoint w3 = stored_checkpoint w"
      using f3 Inr t1 nl
        stored_checkpoint_merged [of w3 "w1\<lparr>clock := Suc (clock w1)\<rparr>"
          "AList.update ''updated_at'' SERVER_TIMESTAMP data"]
      by (simp_all add: effect_def ev_def stored_checkpoint_frame)
    ultimately show ?thesis
      using l
      by (intro exI [of _ "map EvCompensate (rev [0..<index]) @ [ev]"])
         (simp add: save_history_fst save_history_snd comp_indices_append run_indices_append
            lss_writes_append comp_indices_map run_indices_map_comp lss_writes_map_comp
            stored_checkpoint_frame del: append.simps)
  qed
qed

text \<open>The success path of \<open>execute\<close>: the write of the SUCCESS state with
  \<open>last_success_step = len(steps) - 1\<close>, then the history entry, which is the returned
  result, unless the addition raises.\<close>

lemma complete_workflow_effect:
  assumes "complete_workflow orch er w = (out, w')"
  shows "\<exists>evs. trace w' = trace w @ evs \<and> comp_indices evs = [] \<and> run_indices evs = []
     \<and> read_faults w' = read_faults w
     \<and> ((\<exists>m. out = Inl (Exc m) \<and> Some m \<in> set (write_faults w) \<and> lss_writes evs = []
             \<and> stored_checkpoint w' = stored_checkpoint w)
        \<or> (out = Inr (Execution (er\<lparr>created_at := Some SERVER_TIMESTAMP\<rparr>))
            \<and> lss_writes evs = [int (length (steps orch)) - 1]
            \<and> stored_checkpoint w' = VInt (int (length (steps orch)) - 1)
            \<and> doc_field w' ''status'' = Some (VStr ''SUCCESS'')
            \<and> doc_field w' ''completed_at'' = Some (VTime (clock w))
            \<and> doc_field w' ''last_success_step'' = Some (VInt (int (length (steps orch)) - 1))
            \<and> history w' = (if add_fails w then history w
                              else history w @ [er\<lparr>created_at := Some SERVER_TIMESTAMP\<rparr>])))"
proof -
  define data where "data = [(''status'', VStr ''SUCCESS''), (''completed_at'', VTime (clock w)),
       (''last_success_step'', VInt (int (length (steps orch)) - 1))]"
  obtain r3 w3 where u3: "update_state data (w\<lparr>clock := Suc (clock w)\<rparr>) = (r3, w3)"
    by fastforce
  note f3 = update_state_effect [OF u3]
  have cw: "complete_workflow orch er w =
      (case r3 of Inl e \<Rightarrow> (Inl e, w3)
       | Inr u \<Rightarrow> (case save_execution_to_history er w3 of
                    (er', w4) \<Rightarrow> (Inr (Execution er'), w4)))"
    using u3 by (simp add: complete_workflow_def utcnow_isoformat_def data_def)
  show ?thesis
  proof (cases r3)
    case (Inl e)
    then have "out = Inl e" "w' = w3"
      using assms cw by simp_all
    then show ?thesis
      using f3 Inl stored_checkpoint_doc [of w3 "w\<lparr>clock := Suc (clock w)\<rparr>"]
      by (intro exI [of _ "[]"]) (auto simp: effect_def stored_checkpoint_frame)
  next
    case (Inr u)
    define ev where "ev = EvWrite (AList.update ''updated_at'' SERVER_TIMESTAMP data)"
    have l: "lss_writes [ev] = [int (length (steps orch)) - 1]" "comp_indices [ev] = []"
      "run_indices [ev] = []"
      by (simp_all add: ev_def data_def)
    have "out = Inr (Execution (fst (save_execution_to_history er w3)))"
      "w' = snd (save_execution_to_history er w3)"
      using assms cw Inr by (simp_all add: split_beta)
    moreover have "trace w3 = trace w @ [ev]" "read_faults w3 = read_faults w"
      "history w3 = history w" "add_faults w3 = add_faults w"
      "doc w3 = Some (merge_into (doc w) (AList.update ''updated_at'' SERVER_TIMESTAMP data))"
      using f3 Inr by (simp_all add: effect_def ev_def)
    ultimately show ?thesis
      using l
      by (intro exI [of _ "[ev]"])
         (simp add: save_history_fst save_history_snd stored_checkpoint_def doc_field_def
            merge_into_apply data_def add_fails_def)
  qed
qed

section \<open>The loop over the steps\<close>



section \<open>Compensation and the outcome of a run\<close>






section \<open>The successful run\<close>




section \<open>Resuming\<close>


text \<open>The definitions to unfold for running a concrete workflow.\<close>

lemmas run_defs = execute_def get_state_def doc_ref_get_def next_fault_def
  dict_get_def utcnow_isoformat_def update_state_def doc_ref_set_merge_def Let_def
  enumerate_simps execute_step_with_retry_def try_attempt_def upt_conv_Cons append_step_def
  complete_workflow_def fail_workflow_def run_compensations_def
  save_execution_to_history_def history_ref_add_def merge_into_apply doc_field_def
  new_events_def skipped_def default_state_fields








section \<open>The checkpoint over successive runs\<close>

lemma sorted_last_append:
  fixes c :: int
  assumes "sorted (c # xs)" and "sorted (last (c # xs) # ys)"
  shows "sorted (c # xs @ ys) \<and> last (c # xs @ ys) = last (last (c # xs) # ys)"
  using assms
proof (induction xs arbitrary: c)
  case Nil
  then show ?case by simp
next
  case (Cons x xs)
  have s: "sorted (x # xs)" "c \<le> x"
    using Cons.prems(1) by simp_all
  have l: "last (c # x # xs) = last (x # xs)"
    by simp
  from Cons.IH [OF s(1)] Cons.prems(2) l
  have ih: "sorted (x # xs @ ys)" "last (x # xs @ ys) = last (last (x # xs) # ys)"
    by simp_all
  have a: "\<forall>y\<in>set (xs @ ys). x \<le> y"
    using ih(1) by (simp del: set_append)
  have "\<forall>y\<in>set (x # xs @ ys). c \<le> y"
  proof
    fix y assume "y \<in> set (x # xs @ ys)"
    then have "x \<le> y" using a by auto
    then show "c \<le> y" using s(2) by linarith
  qed
  then show ?case
    using ih l by simp
qed


lemma stored_checkpoint_read:
  "\<not> read_fails w \<Longrightarrow>
   dict_get (fst (get_state w)) ''last_success_step'' (VInt (- 1)) = stored_checkpoint w"
  by (simp add: get_state_fst stored_checkpoint_def doc_field_def dict_get_def
        default_state_fields split: option.splits)

text \<open>
  The loop from a point \<open>n\<close>, when the document's checkpoint \<open>c\<close> is at most the value
  \<open>s\<close> read at the start or the index before \<open>n\<close>: the values of \<open>last_success_step\<close> it
  writes go upward from \<open>c\<close>, the last one is the checkpoint it leaves, and that stays
  below the number of steps.
\<close>

lemma execute_steps_checkpoint:
  assumes "execute_steps orch (VInt s) (enumerate n xs) er w = (out, w')"
    and "n + length xs = length (steps orch)"
    and "stored_checkpoint w = VInt c" and "c \<le> max s (int n - 1)"
    and "s < int (length (steps orch))"
  shows "\<exists>evs. trace w' = trace w @ evs \<and> read_faults w' = read_faults w
     \<and> sorted (c # lss_writes evs)
     \<and> stored_checkpoint w' = VInt (last (c # lss_writes evs))
     \<and> last (c # lss_writes evs) < int (length (steps orch))"
  using assms
proof (induction xs arbitrary: n er w c)
  case Nil
  then have cw: "complete_workflow orch er w = (out, w')"
    by simp
  have cl: "c \<le> int (length (steps orch)) - 1"
    using Nil.prems by auto
  from complete_workflow_effect [OF cw] obtain evs where
    "trace w' = trace w @ evs" "read_faults w' = read_faults w"
    "lss_writes evs = [] \<and> stored_checkpoint w' = stored_checkpoint w
     \<or> lss_writes evs = [int (length (steps orch)) - 1]
        \<and> stored_checkpoint w' = VInt (int (length (steps orch)) - 1)"
    by blast
  then show ?case
    using Nil.prems(3) cl by (intro exI [of _ evs]) auto
next
  case (Cons x xs)
  have len: "Suc n + length xs = length (steps orch)" "n \<le> length (steps orch)"
    "n < length (steps orch)"
    using Cons.prems(2) by simp_all
  show ?case
  proof (cases "int n \<le> s")
    case True
    then have ex: "execute_steps orch (VInt s) (enumerate (Suc n) xs)
                  (append_step er (skipped x n)) w = (out, w')"
      using Cons.prems(1) by (simp add: enumerate_simps)
    have "c \<le> max s (int (Suc n) - 1)"
      using Cons.prems(4) by auto
    from Cons.IH [OF ex len(1) Cons.prems(3) this Cons.prems(5)] show ?thesis .
  next
    case False
    obtain sr w1 where rt: "execute_step_with_retry orch x n w = (sr, w1)"
      by fastforce
    then have "retry_attempts orch x n [0..<nat (max_retries orch)] w = (sr, w1)"
      by (simp add: execute_step_with_retry_def)
    from retry_attempts_effect [OF this] obtain evs1 where
      e1: "trace w1 = trace w @ evs1" "read_faults w1 = read_faults w"
      and alt: "sr_status sr = SUCCESS \<and> lss_writes evs1 = [int n]
                  \<and> stored_checkpoint w1 = VInt (int n)
                \<or> sr_status sr = FAILED \<and> lss_writes evs1 = []
                  \<and> stored_checkpoint w1 = stored_checkpoint w"
      by (auto simp: effect_def)
    have cn: "c < int n"
      using Cons.prems(4) False by auto
    show ?thesis
    proof (cases "sr_status sr = FAILED")
      case True
      then have fw: "fail_workflow orch x n sr (append_step er sr) w1 = (out, w')"
        using Cons.prems(1) False rt by (simp add: enumerate_simps)
      from fail_workflow_effect [OF fw len(2)] obtain evs2 where
        e2: "trace w' = trace w1 @ evs2" "lss_writes evs2 = []"
          "stored_checkpoint w' = stored_checkpoint w1" "read_faults w' = read_faults w1"
        by blast
      have "lss_writes evs1 = []" "stored_checkpoint w1 = VInt c"
        using alt True Cons.prems(3) by auto
      then show ?thesis
        using e1 e2 cn len(3)
        by (intro exI [of _ "evs1 @ evs2"]) (simp add: lss_writes_append)
    next
      case ok: False
      then have ex: "execute_steps orch (VInt s) (enumerate (Suc n) xs) (append_step er sr) w1
                        = (out, w')"
        using Cons.prems(1) False rt by (simp add: enumerate_simps)
      have a: "lss_writes evs1 = [int n]" "stored_checkpoint w1 = VInt (int n)"
        using alt ok by auto
      have "int n \<le> max s (int (Suc n) - 1)"
        by simp
      from Cons.IH [OF ex len(1) a(2) this Cons.prems(5)] obtain evs2 where
        e2: "trace w' = trace w1 @ evs2" "read_faults w' = read_faults w1"
          "sorted (int n # lss_writes evs2)"
          "stored_checkpoint w' = VInt (last (int n # lss_writes evs2))"
          "last (int n # lss_writes evs2) < int (length (steps orch))"
        by blast
      have "sorted (c # lss_writes (evs1 @ evs2))"
        "last (c # lss_writes (evs1 @ evs2)) = last (int n # lss_writes evs2)"
        using a cn e2(3) by (auto simp: lss_writes_append)
      then show ?thesis
        using e1 e2 by (intro exI [of _ "evs1 @ evs2"]) simp
    qed
  qed
qed

text \<open>One run, when the read succeeds and the checkpoint is below the number of steps.\<close>

lemma execute_checkpoint:
  assumes "execute orch retry w = (out, w')" and "read_faults w = []"
    and "stored_checkpoint w = VInt s" and "s < int (length (steps orch))"
  shows "\<exists>evs. trace w' = trace w @ evs \<and> read_faults w' = []
     \<and> sorted (s # lss_writes evs)
     \<and> stored_checkpoint w' = VInt (last (s # lss_writes evs))
     \<and> last (s # lss_writes evs) < int (length (steps orch))"
proof -
  obtain state w1 where g: "get_state w = (state, w1)"
    by fastforce
  have w1: "w1 = w"
    using get_state_snd [of w] g assms(2) by (simp add: next_fault_Nil)
  have "\<not> read_fails w"
    using assms(2) by (simp add: read_fails_def next_fault_Nil)
  then have ls: "dict_get state ''last_success_step'' (VInt (- 1)) = VInt s"
    using stored_checkpoint_read [of w] g assms(3) by simp
  show ?thesis
  proof (cases "state ''status'' = Some (VStr ''IN_PROGRESS'') \<and> \<not> retry")
    case True
    then have "out = Inr (ALREADY_IN_PROGRESS ''Workflow is already running'')" "w' = w1"
      using assms(1) g by (simp_all add: execute_def)
    then show ?thesis
      using w1 assms by (intro exI [of _ "[]"]) simp
  next
    case False
    define data where "data = [(''status'', VStr ''IN_PROGRESS''), (''started_at'', VTime (clock w1)),
        (''retry_count'', (if retry then dict_get state ''retry_count'' (VInt 0) else VInt 0)),
        (''error'', VNone)]"
    define er0 where "er0 = \<lparr>er_status = SUCCESS, steps_executed = [], errors = [],
        failed_step = None, failed_step_index = None, created_at = None\<rparr>"
    obtain r3 w3 where u3: "update_state data (w1\<lparr>clock := Suc (clock w1)\<rparr>) = (r3, w3)"
      by fastforce
    note f3 = update_state_effect [OF u3]
    have gf: "(state ''status'' = Some (VStr ''IN_PROGRESS'') \<and> \<not> retry) = False"
      using False by blast
    have ex: "execute orch retry w =
        (case r3 of Inl e \<Rightarrow> (Inl e, w3)
         | Inr u \<Rightarrow> execute_steps orch (VInt s) (enumerate 0 (steps orch)) er0 w3)"
      unfolding er0_def using g gf u3 [unfolded data_def] ls
      by (auto simp add: execute_def Let_def utcnow_isoformat_def simp del: execute_steps.simps)
    have nl: "map_of (AList.update ''updated_at'' SERVER_TIMESTAMP data) ''last_success_step'' = None"
      by (simp add: data_def)
    show ?thesis
    proof (cases r3)
      case (Inl e)
      then have "out = Inl e" "w' = w3"
        using assms(1) ex by simp_all
      moreover have "trace w3 = trace w" "read_faults w3 = []" "stored_checkpoint w3 = VInt s"
        using f3 Inl w1 assms(2,3) stored_checkpoint_doc [of w3 "w1\<lparr>clock := Suc (clock w1)\<rparr>"]
        by (simp_all add: effect_def stored_checkpoint_frame)
      ultimately show ?thesis
        using assms(4) by (intro exI [of _ "[]"]) simp
    next
      case (Inr u)
      define ev where "ev = EvWrite (AList.update ''updated_at'' SERVER_TIMESTAMP data)"
      have t3: "trace w3 = trace w @ [ev]" "read_faults w3 = []" "stored_checkpoint w3 = VInt s"
        using f3 Inr w1 assms(2,3) nl
          stored_checkpoint_merged [of w3 "w1\<lparr>clock := Suc (clock w1)\<rparr>"
            "AList.update ''updated_at'' SERVER_TIMESTAMP data"]
        by (simp_all add: effect_def ev_def stored_checkpoint_frame)
      have l0: "lss_writes [ev] = []"
        using nl by (simp add: ev_def)
      have es: "execute_steps orch (VInt s) (enumerate 0 (steps orch)) er0 w3 = (out, w')"
        using assms(1) ex Inr by simp
      have "0 + length (steps orch) = length (steps orch)" "s \<le> max s (int 0 - 1)"
        by simp_all
      from execute_steps_checkpoint [OF es this(1) t3(3) this(2) assms(4)] obtain evs where
        e: "trace w' = trace w3 @ evs" "read_faults w' = read_faults w3"
          "sorted (s # lss_writes evs)"
          "stored_checkpoint w' = VInt (last (s # lss_writes evs))"
          "last (s # lss_writes evs) < int (length (steps orch))"
        by blast
      have "lss_writes ([ev] @ evs) = lss_writes evs"
        using l0 by (simp only: lss_writes_append) simp
      then show ?thesis
        using e t3 by (intro exI [of _ "[ev] @ evs"]) simp
    qed
  qed
qed

text \<open>Any number of runs, under the same two conditions at the start.\<close>

lemma execute_all_checkpoint:
  assumes "read_faults w = []" and "stored_checkpoint w = VInt s"
    and "s < int (length (steps orch))"
  shows "\<exists>evs. trace (execute_all orch retries w) = trace w @ evs
     \<and> sorted (s # lss_writes evs)
     \<and> stored_checkpoint (execute_all orch retries w) = VInt (last (s # lss_writes evs))"
  using assms
proof (induction retries arbitrary: w s)
  case Nil
  then show ?case by (intro exI [of _ "[]"]) simp
next
  case (Cons retry retries)
  obtain out w1 where ex: "execute orch retry w = (out, w1)"
    by fastforce
  from execute_checkpoint [OF ex Cons.prems] obtain evs1 where
    e1: "trace w1 = trace w @ evs1" "read_faults w1 = []" "sorted (s # lss_writes evs1)"
      "stored_checkpoint w1 = VInt (last (s # lss_writes evs1))"
      "last (s # lss_writes evs1) < int (length (steps orch))"
    by blast
  from Cons.IH [OF e1(2) e1(4) e1(5)] obtain evs2 where
    e2: "trace (execute_all orch retries w1) = trace w1 @ evs2"
      "sorted (last (s # lss_writes evs1) # lss_writes evs2)"
      "stored_checkpoint (execute_all orch retries w1)
         = VInt (last (last (s # lss_writes evs1) # lss_writes evs2))"
    by blast
  from sorted_last_append [OF e1(3) e2(2)]
  have "sorted (s # lss_writes (evs1 @ evs2))"
    "last (s # lss_writes (evs1 @ evs2)) = last (last (s # lss_writes evs1) # lss_writes evs2)"
    by (simp_all add: lss_writes_append)
  then show ?case
    using ex e1 e2 by (intro exI [of _ "evs1 @ evs2"]) simp
qed

text \<open>
  C4, as the code has it. For an orchestrator with a fixed list of steps, started when
  the checkpoint in the document (\<open>last_success_step\<close>, -1 when absent) is an integer
  below the number of steps, and as long as the reads of the state succeed: over any
  sequence of \<open>execute\<close> calls, with \<open>retry\<close> true or false, the values of
  \<open>last_success_step\<close> that the store accepts never go down, starting from the
  checkpoint found, and the checkpoint left is the last of them.
\<close>

theorem checkpoint_never_decreases:
  assumes "read_faults w = []" and "stored_checkpoint w = VInt s"
    and "s < int (length (steps orch))"
  shows "sorted (s # lss_writes (new_events w (execute_all orch retries w)))
     \<and> stored_checkpoint (execute_all orch retries w)
         = VInt (last (s # lss_writes (new_events w (execute_all orch retries w))))"
proof -
  from execute_all_checkpoint [OF assms, of retries] obtain evs where
    "trace (execute_all orch retries w) = trace w @ evs" "sorted (s # lss_writes evs)"
    "stored_checkpoint (execute_all orch retries w) = VInt (last (s # lss_writes evs))"
    by blast
  then show ?thesis
    by (simp add: new_events_def)
qed

lemma two_runs_of_ab_once:
  "lss_writes (new_events fresh_world (execute_all ab_once [False, True] fresh_world))
     = [0, 1, 1, 1]"
  "stored_checkpoint (execute_all ab_once [False, True] fresh_world) = VInt 1"
  by (simp_all add: ab_once_def fresh_world_def step_ok_def step_once_def stored_checkpoint_def
        run_defs)

theorem checkpoint_never_decreases_witness:
  "read_faults fresh_world = [] \<and> stored_checkpoint fresh_world = VInt (- 1)
   \<and> lss_writes (new_events fresh_world (execute_all ab_once [False, True] fresh_world))
       = [0, 1, 1, 1]
   \<and> stored_checkpoint (execute_all ab_once [False, True] fresh_world) = VInt 1"
proof -
  have h: "read_faults fresh_world = []" "stored_checkpoint fresh_world = VInt (- 1)"
    "- 1 < int (length (steps ab_once))"
    by (simp_all add: fresh_world_def stored_checkpoint_def doc_field_def ab_once_def)
  from checkpoint_never_decreases [OF h, of "[False, True]"] h(1,2) show ?thesis
    by (simp add: two_runs_of_ab_once del: execute_all.simps)
qed

text \<open>
  The claim as stated fails when a read of the state raises: the first run of \<open>[A, B]\<close>
  leaves \<open>last_success_step = 1\<close>; the second run reads the default state, runs \<open>A\<close>
  again and writes \<open>last_success_step = 0\<close>, and \<open>B\<close> fails, so that 0 stays.
\<close>

theorem checkpoint_decreases_after_failed_read_counterexample:
  "stored_checkpoint (execute_all ab_once [False] second_read_fails_world) = VInt 1
   \<and> stored_checkpoint (execute_all ab_once [False, False] second_read_fails_world) = VInt 0
   \<and> lss_writes (new_events second_read_fails_world
                    (execute_all ab_once [False, False] second_read_fails_world))
       = [0, 1, 1, 0]"
  by (simp add: ab_once_def second_read_fails_world_def fresh_world_def step_ok_def
        step_once_def stored_checkpoint_def run_defs)

end
